theory Spec2Isabelle
  imports Main
begin

section \<open>The conversation core of Guygentic.py\<close>

text \<open>
  A shallow embedding of \<^verbatim>\<open>ConversationNode\<close>, \<^verbatim>\<open>ConversationStack\<close> and
  \<^verbatim>\<open>MessageBuilder\<close> of \<^verbatim>\<open>src/Guygentic.py\<close>. Python objects that are mutated in
  place are passed and returned explicitly; every exception the code can raise is a
  value of \<open>py_error\<close>. Node indices and branch ids are Python integers (\<open>int\<close>);
  a text field is \<open>string option\<close>, \<open>None\<close> being Python's \<^verbatim>\<open>None\<close>.
\<close>

subsection \<open>Python primitives used by the code\<close>

datatype py_error = ValueError | OverflowError | IndexError

text \<open>
  \<^verbatim>\<open>xs[start:]\<close>: a negative start counts from the end, and the result is clamped to
  the list. The code writes \<^verbatim>\<open>xs[-limit:]\<close>, which is \<open>py_slice_from xs (- limit)\<close>.
\<close>

definition py_slice_from :: "'a list \<Rightarrow> int \<Rightarrow> 'a list" where
  "py_slice_from xs start =
     (let n = int (length xs);
          st = (if start < 0 then max (start + n) 0 else min start n)
      in drop (nat st) xs)"

text \<open>
  \<^verbatim>\<open>collections.deque(maxlen=m)\<close>: the constructor converts \<^verbatim>\<open>maxlen\<close> to a
  \<^verbatim>\<open>Py_ssize_t\<close> (64 bits here) and raises \<^verbatim>\<open>OverflowError\<close> when it does not fit,
  then raises \<^verbatim>\<open>ValueError\<close> when it is negative; \<^verbatim>\<open>append\<close> adds on the right
  and, when the length then exceeds \<^verbatim>\<open>maxlen\<close>, discards the leftmost element; indexing
  accepts negative indices and raises \<^verbatim>\<open>IndexError\<close> out of range.
\<close>

definition deque_new :: "int \<Rightarrow> py_error + nat" where
  "deque_new m =
     (if m < - (2 ^ 63) \<or> 2 ^ 63 \<le> m then Inl OverflowError
      else if m < 0 then Inl ValueError
      else Inr (nat m))"

definition deque_append :: "'a list \<Rightarrow> nat \<Rightarrow> 'a \<Rightarrow> 'a list" where
  "deque_append xs m x = (let ys = xs @ [x] in if m < length ys then tl ys else ys)"

definition deque_index :: "'a list \<Rightarrow> int \<Rightarrow> py_error + 'a" where
  "deque_index xs i =
     (if 0 \<le> i \<and> i < int (length xs) then Inr (xs ! nat i)
      else if i < 0 \<and> - int (length xs) \<le> i then Inr (xs ! nat (int (length xs) + i))
      else Inl IndexError)"

text \<open>
  \<^verbatim>\<open>str.isspace\<close> on one character and \<^verbatim>\<open>str.strip()\<close>. A \<open>char\<close> stands for a
  code point below 256; the white space among these is U+0009..U+000D, U+001C..U+001F,
  U+0020, U+0085 and U+00A0.
\<close>

definition isspace :: "char \<Rightarrow> bool" where
  "isspace c = ((of_char c :: nat) \<in> {9, 10, 11, 12, 13, 28, 29, 30, 31, 32, 133, 160})"

definition strip :: "string \<Rightarrow> string" where
  "strip s = rev (dropWhile isspace (rev (dropWhile isspace s)))"

text \<open>The test \<^verbatim>\<open>content and content.strip()\<close>: neither \<^verbatim>\<open>None\<close>, nor empty, nor blank.\<close>

definition nonblank :: "string option \<Rightarrow> bool" where
  "nonblank f = (case f of None \<Rightarrow> False | Some t \<Rightarrow> t \<noteq> [] \<and> strip t \<noteq> [])"

subsection \<open>ConversationNode\<close>

record ConversationNode =
  system_prompt :: "string option"
  user_prompt :: "string option"
  ai_response :: "string option"
  timestamp :: string
  branch_id :: int
  parent_index :: "int option"

text \<open>
  The constructor. \<open>now\<close> is what \<^verbatim>\<open>str(datetime.now())\<close> reads when the caller gives
  no (or an empty) timestamp.
\<close>

definition ConversationNode_init ::
  "string option \<Rightarrow> string option \<Rightarrow> string option \<Rightarrow> string option \<Rightarrow> int \<Rightarrow> string
     \<Rightarrow> ConversationNode" where
  "ConversationNode_init sp up ar ts bid now =
     \<lparr> system_prompt = sp, user_prompt = up, ai_response = ar,
       timestamp = (case ts of None \<Rightarrow> now | Some t \<Rightarrow> if t = [] then now else t),
       branch_id = bid, parent_index = None \<rparr>"

subsection \<open>ConversationStack\<close>

record ConversationStack =
  stack :: "ConversationNode list"
  maxlen :: nat
  branches :: "int \<rightharpoonup> int list"
  current_branch :: int

definition ConversationStack_init :: "int \<Rightarrow> py_error + ConversationStack" where
  "ConversationStack_init max_size =
     (case deque_new max_size of
        Inl e \<Rightarrow> Inl e
      | Inr m \<Rightarrow> Inr \<lparr> stack = [], maxlen = m, branches = Map.empty, current_branch = 0 \<rparr>)"

text \<open>The arguments of one call of \<^verbatim>\<open>push\<close>, with the clock reading of that call.\<close>

record push_args =
  p_system :: "string option"
  p_user :: "string option"
  p_response :: "string option"
  p_branch :: "int option"
  p_now :: string

definition push_node :: "ConversationStack \<Rightarrow> push_args \<Rightarrow> ConversationNode" where
  "push_node s a =
     ConversationNode_init (p_system a) (p_user a) (p_response a) None
       (case p_branch a of None \<Rightarrow> current_branch s | Some b \<Rightarrow> b) (p_now a)"

definition push :: "ConversationStack \<Rightarrow> push_args \<Rightarrow> int \<times> ConversationStack" where
  "push s a =
     (let node = push_node s a;
          bid = branch_id node;
          st = deque_append (stack s) (maxlen s) node;
          ids = (case branches s bid of None \<Rightarrow> [] | Some l \<Rightarrow> l);
          k = int (length st) - 1
      in (k, s\<lparr> stack := st, branches := (branches s)(bid \<mapsto> ids @ [k]) \<rparr>))"

definition get_recent_conversation :: "ConversationStack \<Rightarrow> int \<Rightarrow> ConversationNode list" where
  "get_recent_conversation s limit = py_slice_from (stack s) (- limit)"

text \<open>
  The comprehension \<^verbatim>\<open>[self.stack[i] for i in indices if i < len(self.stack)]\<close>:
  an \<^verbatim>\<open>IndexError\<close> of one element aborts the whole call.
\<close>

fun resolve_indices :: "ConversationNode list \<Rightarrow> int list \<Rightarrow> py_error + ConversationNode list" where
  "resolve_indices st [] = Inr []"
| "resolve_indices st (i # is) =
     (if i < int (length st) then
        (case deque_index st i of
           Inl e \<Rightarrow> Inl e
         | Inr n \<Rightarrow> (case resolve_indices st is of Inl e \<Rightarrow> Inl e | Inr ns \<Rightarrow> Inr (n # ns)))
      else resolve_indices st is)"

definition get_branch_conversation ::
  "ConversationStack \<Rightarrow> int \<Rightarrow> int \<Rightarrow> py_error + ConversationNode list" where
  "get_branch_conversation s bid limit =
     (case branches s bid of
        None \<Rightarrow> Inr []
      | Some ids \<Rightarrow> resolve_indices (stack s) (py_slice_from ids (- limit)))"

text \<open>
  \<^verbatim>\<open>create_branch\<close> returns the index of the new node, or \<^verbatim>\<open>None\<close>. The counter
  \<^verbatim>\<open>current_branch\<close> is incremented before \<^verbatim>\<open>self.stack[from_index]\<close> is read, so
  an \<^verbatim>\<open>IndexError\<close> raised there leaves the incremented counter behind.
\<close>

definition create_branch ::
  "ConversationStack \<Rightarrow> int \<Rightarrow> string option \<Rightarrow> string option \<Rightarrow> string
     \<Rightarrow> (py_error + int option) \<times> ConversationStack" where
  "create_branch s from_index new_system_prompt new_user_prompt now =
     (if from_index \<ge> int (length (stack s)) then (Inr None, s)
      else
        let s1 = s\<lparr> current_branch := current_branch s + 1 \<rparr> in
        case deque_index (stack s1) from_index of
          Inl e \<Rightarrow> (Inl e, s1)
        | Inr parent_node \<Rightarrow>
            let sp = (case new_system_prompt of Some v \<Rightarrow> Some v
                      | None \<Rightarrow> system_prompt parent_node);
                up = (case new_user_prompt of Some v \<Rightarrow> Some v
                      | None \<Rightarrow> user_prompt parent_node);
                new_node = (ConversationNode_init sp up (Some []) None (current_branch s1) now)
                             \<lparr> parent_index := Some from_index \<rparr>;
                st = deque_append (stack s1) (maxlen s1) new_node;
                k = int (length st) - 1
            in (Inr (Some k),
                s1\<lparr> stack := st, branches := (branches s1)(current_branch s1 \<mapsto> [k]) \<rparr>))"

definition get_stack :: "ConversationStack \<Rightarrow> ConversationNode list" where
  "get_stack s = stack s"

definition get_item :: "ConversationStack \<Rightarrow> int \<Rightarrow> ConversationNode option" where
  "get_item s index =
     (if 0 \<le> index \<and> index < int (length (stack s)) then Some (stack s ! nat index) else None)"

text \<open>A run of \<^verbatim>\<open>push\<close> calls: the final store, and the indices the calls returned.\<close>

fun pushes :: "ConversationStack \<Rightarrow> push_args list \<Rightarrow> ConversationStack" where
  "pushes s [] = s"
| "pushes s (a # as) = pushes (snd (push s a)) as"

fun push_ids :: "ConversationStack \<Rightarrow> push_args list \<Rightarrow> int list" where
  "push_ids s [] = []"
| "push_ids s (a # as) = fst (push s a) # push_ids (snd (push s a)) as"

subsection \<open>MessageBuilder\<close>

record message =
  role :: string
  content :: string

definition add_line :: "message list \<Rightarrow> string \<Rightarrow> string option \<Rightarrow> message list" where
  "add_line msg r c =
     (case c of
        None \<Rightarrow> msg
      | Some t \<Rightarrow> if t \<noteq> [] \<and> strip t \<noteq> [] then msg @ [\<lparr> role = r, content = strip t \<rparr>]
                  else msg)"

definition add_system :: "message list \<Rightarrow> string option \<Rightarrow> message list" where
  "add_system msg c = add_line msg ''system'' c"

definition add_user :: "message list \<Rightarrow> string option \<Rightarrow> message list" where
  "add_user msg c = add_line msg ''user'' c"

definition add_assistant :: "message list \<Rightarrow> string option \<Rightarrow> message list" where
  "add_assistant msg c = add_line msg ''assistant'' c"

text \<open>The body of the loop of \<^verbatim>\<open>build_from_conversation\<close> for one node.\<close>

definition build_node :: "message list \<Rightarrow> ConversationNode \<Rightarrow> message list" where
  "build_node msg node =
     (let m1 = (if nonblank (system_prompt node) then add_system msg (system_prompt node) else msg);
          m2 = (if nonblank (user_prompt node) then add_user m1 (user_prompt node) else m1)
      in if nonblank (ai_response node) then add_assistant m2 (ai_response node) else m2)"

fun build_loop :: "message list \<Rightarrow> ConversationNode list \<Rightarrow> message list" where
  "build_loop msg [] = msg"
| "build_loop msg (node # nodes) = build_loop (build_node msg node) nodes"

text \<open>\<^verbatim>\<open>self.clear()\<close> empties the message list whatever it held.\<close>

definition build_from_conversation :: "message list \<Rightarrow> ConversationNode list \<Rightarrow> message list" where
  "build_from_conversation msg conversation_nodes = build_loop [] conversation_nodes"

subsection \<open>The assembly rules as the specification words them\<close>

text \<open>
  Written from the specification, to be compared with \<open>build_from_conversation\<close>:
  a field is blank when it is absent or consists of white space only; a turn yields a
  system, a user and an assistant message in this order, each only for a field that is
  not blank; the turns are taken in input order.
\<close>

definition blank :: "string option \<Rightarrow> bool" where
  "blank f = (case f of None \<Rightarrow> True | Some t \<Rightarrow> (\<forall>c \<in> set t. isspace c))"

definition spec_emit :: "string \<Rightarrow> string option \<Rightarrow> message list" where
  "spec_emit r f = (if blank f then [] else [\<lparr> role = r, content = strip (the f) \<rparr>])"

definition spec_turn_messages :: "ConversationNode \<Rightarrow> message list" where
  "spec_turn_messages t =
     spec_emit ''system'' (system_prompt t) @ spec_emit ''user'' (user_prompt t)
       @ spec_emit ''assistant'' (ai_response t)"

definition spec_assemble :: "ConversationNode list \<Rightarrow> message list" where
  "spec_assemble turns = concat (map spec_turn_messages turns)"

text \<open>The three text fields of a node, each with the role of the message it is emitted as.\<close>

definition role_fields :: "ConversationNode \<Rightarrow> (string \<times> string option) set" where
  "role_fields n =
     {(''system'', system_prompt n), (''user'', user_prompt n), (''assistant'', ai_response n)}"

subsection \<open>Notions used to state the properties of the branch index\<close>

text \<open>
  The positions of the nodes of a branch in a list of nodes; a store whose branch index
  records exactly these positions; a store whose recorded indices all are positions of
  the deque.
\<close>

definition branch_positions :: "ConversationNode list \<Rightarrow> int \<Rightarrow> nat list" where
  "branch_positions ns b = filter (\<lambda>i. branch_id (ns ! i) = b) [0..<length ns]"

definition branches_track :: "ConversationStack \<Rightarrow> bool" where
  "branches_track s \<longleftrightarrow>
     (\<forall>b. branches s b =
        (if branch_positions (stack s) b = [] then None
         else Some (map int (branch_positions (stack s) b))))"

definition indices_in_range :: "ConversationStack \<Rightarrow> bool" where
  "indices_in_range s \<longleftrightarrow>
     (\<forall>b ids. branches s b = Some ids \<longrightarrow>
        (\<forall>i \<in> set ids. 0 \<le> i \<and> i < int (length (stack s))))"

subsection \<open>Concrete inputs\<close>

definition turn_blank :: ConversationNode where
  "turn_blank = ConversationNode_init (Some ''  '') (Some '' hi '') None None 0 ''t0''"

definition turn_full :: ConversationNode where
  "turn_full = ConversationNode_init (Some ''sys'') (Some ''u2'') (Some ''r2 '') None 0 ''t1''"

definition new_store :: "int \<Rightarrow> ConversationStack" where
  "new_store max_size = projr (ConversationStack_init max_size)"

definition arg_A :: push_args where
  "arg_A = \<lparr> p_system = Some ''sys'', p_user = Some ''u1'', p_response = Some ''r1'',
             p_branch = None, p_now = ''t1'' \<rparr>"

definition arg_B :: push_args where
  "arg_B = \<lparr> p_system = Some ''sys'', p_user = Some ''u2'', p_response = Some ''r2'',
             p_branch = Some 1, p_now = ''t2'' \<rparr>"

definition arg_C :: push_args where
  "arg_C = \<lparr> p_system = Some ''sys'', p_user = Some ''u3'', p_response = Some ''r3'',
             p_branch = Some 0, p_now = ''t3'' \<rparr>"



section \<open>The message builder\<close>

subsection \<open>Stripping\<close>

lemma all_dropWhile_iff: "(\<forall>x \<in> set (dropWhile P xs). P x) \<longleftrightarrow> (\<forall>x \<in> set xs. P x)"
  by (induction xs) auto

lemma strip_Nil_iff: "strip t = [] \<longleftrightarrow> (\<forall>c \<in> set t. isspace c)"
  by (simp add: strip_def dropWhile_eq_Nil_conv all_dropWhile_iff)

lemma strip_suffix_spaces:
  "dropWhile isspace t = strip t @ rev (takeWhile isspace (rev (dropWhile isspace t)))"
proof -
  let ?u = "dropWhile isspace t"
  have "rev (rev ?u) = rev (takeWhile isspace (rev ?u) @ dropWhile isspace (rev ?u))"
    by (simp only: takeWhile_dropWhile_id)
  then show ?thesis
    by (simp only: rev_rev_ident rev_append strip_def)
qed

text \<open>\<open>strip t\<close> is \<open>t\<close> without a white-space prefix and a white-space suffix.\<close>

lemma strip_decomp:
  "\<exists>l r. t = l @ strip t @ r \<and> (\<forall>c \<in> set l. isspace c) \<and> (\<forall>c \<in> set r. isspace c)"
proof -
  let ?l = "takeWhile isspace t"
  let ?r = "rev (takeWhile isspace (rev (dropWhile isspace t)))"
  have "t = ?l @ dropWhile isspace t" by simp
  then have "t = ?l @ strip t @ ?r"
    using strip_suffix_spaces [of t] by simp
  moreover have "\<forall>c \<in> set ?l. isspace c"
    by (auto dest: set_takeWhileD)
  moreover have "\<forall>c \<in> set ?r. isspace c"
    by (auto dest: set_takeWhileD)
  ultimately show ?thesis by blast
qed

text \<open>What is left starts and ends with a character that is not white space.\<close>

lemma strip_ends:
  assumes "strip t \<noteq> []"
  shows "\<not> isspace (hd (strip t)) \<and> \<not> isspace (last (strip t))"
proof -
  let ?u = "dropWhile isspace t"
  have u: "?u \<noteq> []"
    using assms by (simp add: strip_Nil_iff dropWhile_eq_Nil_conv)
  have "hd (strip t) = hd ?u"
    using assms strip_suffix_spaces [of t] by (metis hd_append2)
  moreover have "\<not> isspace (hd ?u)"
    using u by (rule hd_dropWhile)
  moreover have "last (strip t) = hd (dropWhile isspace (rev ?u))"
    using assms by (simp add: strip_def last_rev)
  moreover have "\<not> isspace (hd (dropWhile isspace (rev ?u)))"
    using assms by (simp add: strip_def hd_dropWhile)
  ultimately show ?thesis by simp
qed

subsection \<open>The builder against the rules\<close>

lemma nonblank_iff: "nonblank f \<longleftrightarrow> \<not> blank f"
  by (auto simp: nonblank_def blank_def strip_Nil_iff split: option.splits)

lemma add_line_spec: "add_line msg r f = msg @ spec_emit r f"
  by (auto simp: add_line_def spec_emit_def blank_def strip_Nil_iff split: option.splits)

lemma build_node_spec: "build_node msg n = msg @ spec_turn_messages n"
  by (simp add: build_node_def spec_turn_messages_def add_system_def add_user_def
      add_assistant_def add_line_spec nonblank_iff spec_emit_def Let_def)

lemma build_loop_spec: "build_loop msg ns = msg @ spec_assemble ns"
  by (induction ns arbitrary: msg) (simp_all add: spec_assemble_def build_node_spec)

lemma spec_emit_content:
  assumes "m \<in> set (spec_emit r f)"
  shows "role m = r \<and> (\<exists>t. f = Some t \<and> content m = strip t \<and> content m \<noteq> [])"
  using assms by (auto simp: spec_emit_def blank_def strip_Nil_iff split: if_splits option.splits)

text \<open>
  C7. Whatever the builder held before, \<open>build_from_conversation\<close> yields exactly the
  messages of the rules: per turn, in input order, a system message if the system prompt
  is present and not blank, then a user message if the user prompt is present and not
  blank, then an assistant message if the response is present and not blank; an absent,
  empty or white-space-only field yields no message.
\<close>

theorem assembler_refines_spec:
  "build_from_conversation msg turns = spec_assemble turns"
  using build_loop_spec [of "[]" turns] by (simp add: build_from_conversation_def)

theorem assembler_refines_spec_witness:
  "build_from_conversation [\<lparr>role = ''user'', content = ''old''\<rparr>] [turn_blank, turn_full] =
     [\<lparr>role = ''user'', content = ''hi''\<rparr>, \<lparr>role = ''system'', content = ''sys''\<rparr>,
      \<lparr>role = ''user'', content = ''u2''\<rparr>, \<lparr>role = ''assistant'', content = ''r2''\<rparr>]"
  using assembler_refines_spec [of "[\<lparr>role = ''user'', content = ''old''\<rparr>]" "[turn_blank, turn_full]"]
  by (simp add: spec_assemble_def spec_turn_messages_def spec_emit_def blank_def strip_def
      isspace_def turn_blank_def turn_full_def ConversationNode_init_def)

text \<open>
  C10. Every message the builder emits has a content that is not empty, that starts and
  ends with a character that is not white space, and that is \<open>strip\<close> of the text field
  of an input node that belongs to the role of the message.
\<close>

theorem emitted_content_stripped:
  "\<forall>m \<in> set (build_from_conversation msg nodes).
     content m \<noteq> [] \<and> \<not> isspace (hd (content m)) \<and> \<not> isspace (last (content m)) \<and>
     (\<exists>n \<in> set nodes. \<exists>t. (role m, Some t) \<in> role_fields n \<and> content m = strip t)"
proof
  fix m
  assume "m \<in> set (build_from_conversation msg nodes)"
  then have "m \<in> set (spec_assemble nodes)"
    using build_loop_spec [of "[]" nodes] by (simp add: build_from_conversation_def)
  then obtain n where n: "n \<in> set nodes" and m: "m \<in> set (spec_turn_messages n)"
    by (auto simp: spec_assemble_def)
  from m have "\<exists>(r, f) \<in> role_fields n. m \<in> set (spec_emit r f)"
    by (auto simp: spec_turn_messages_def role_fields_def)
  then obtain t where t: "(role m, Some t) \<in> role_fields n" "content m = strip t" "content m \<noteq> []"
    using spec_emit_content by blast
  from t(2,3) have "\<not> isspace (hd (content m)) \<and> \<not> isspace (last (content m))"
    using strip_ends [of t] by simp
  with n t show "content m \<noteq> [] \<and> \<not> isspace (hd (content m)) \<and> \<not> isspace (last (content m)) \<and>
     (\<exists>n \<in> set nodes. \<exists>t. (role m, Some t) \<in> role_fields n \<and> content m = strip t)"
    by blast
qed

theorem emitted_content_stripped_witness:
  "\<lparr>role = ''user'', content = ''hi''\<rparr> \<in> set (build_from_conversation [] [turn_blank])
   \<and> user_prompt turn_blank = Some '' hi ''
   \<and> \<not> isspace (hd ''hi'') \<and> \<not> isspace (last ''hi'')
   \<and> (\<exists>n \<in> set [turn_blank]. \<exists>t. (''user'', Some t) \<in> role_fields n \<and> ''hi'' = strip t)"
proof -
  have mem: "\<lparr>role = ''user'', content = ''hi''\<rparr> \<in> set (build_from_conversation [] [turn_blank])"
    by (simp add: build_from_conversation_def build_node_def add_system_def add_user_def
        add_assistant_def add_line_def nonblank_def strip_def isspace_def turn_blank_def
        ConversationNode_init_def)
  have "user_prompt turn_blank = Some '' hi ''"
    by (simp add: turn_blank_def ConversationNode_init_def)
  with mem emitted_content_stripped [of "[]" "[turn_blank]", THEN bspec, OF mem]
  show ?thesis by simp
qed

section \<open>The conversation stack\<close>

lemma length_deque_append:
  "length (deque_append xs m x) = (if length xs < m then Suc (length xs) else length xs)"
  by (simp add: deque_append_def)

lemma deque_append_drop:
  "length xs \<le> m \<Longrightarrow> deque_append xs m x = drop (Suc (length xs) - m) (xs @ [x])"
  by (cases xs) (auto simp: deque_append_def Let_def Suc_diff_le drop_Suc)

lemma deque_append_below: "length xs < m \<Longrightarrow> deque_append xs m x = xs @ [x]"
  by (simp add: deque_append_def)

lemma deque_append_full:
  "length xs = m \<Longrightarrow> 0 < m \<Longrightarrow> deque_append xs m x = tl xs @ [x]"
  by (cases xs) (auto simp: deque_append_def)

lemma push_stack:
  "stack (snd (push s a)) = deque_append (stack s) (maxlen s) (push_node s a)"
  by (simp add: push_def Let_def)

lemma push_maxlen [simp]: "maxlen (snd (push s a)) = maxlen s"
  by (simp add: push_def Let_def)

lemma push_current_branch [simp]: "current_branch (snd (push s a)) = current_branch s"
  by (simp add: push_def Let_def)

lemma push_fst: "fst (push s a) = int (length (stack (snd (push s a)))) - 1"
  by (simp add: push_def Let_def)

lemma pushes_maxlen [simp]: "maxlen (pushes s as) = maxlen s"
  by (induction as arbitrary: s) simp_all

lemma pushes_current_branch [simp]: "current_branch (pushes s as) = current_branch s"
  by (induction as arbitrary: s) simp_all

lemma push_node_pushes: "push_node (pushes s as) a = push_node s a"
  by (simp add: push_node_def split: option.splits)

lemma push_node_push: "push_node (snd (push s b)) a = push_node s a"
  by (simp add: push_node_def split: option.splits)

lemma pushes_append: "pushes s (as @ bs) = pushes (pushes s as) bs"
  by (induction as arbitrary: s) simp_all

lemma pushes_snoc: "pushes s (as @ [a]) = snd (push (pushes s as) a)"
  by (simp add: pushes_append)

lemma stack_pushes_bounded: "length (stack s) \<le> maxlen s \<Longrightarrow> length (stack (pushes s as)) \<le> maxlen s"
  by (induction as rule: rev_induct) (simp_all add: pushes_snoc push_stack length_deque_append)

lemma stack_pushes:
  "length (stack s) \<le> maxlen s \<Longrightarrow>
   stack (pushes s as) =
     drop (length (stack s) + length as - maxlen s) (stack s @ map (push_node s) as)"
proof (induction as rule: rev_induct)
  case Nil
  then show ?case by simp
next
  case (snoc a as)
  let ?t = "pushes s as"
  let ?all = "stack s @ map (push_node s) as"
  let ?k = "length (stack s) + length as - maxlen s"
  have st: "stack ?t = drop ?k ?all" using snoc by simp
  have len: "length (stack ?t) \<le> maxlen s"
    using snoc.prems by (rule stack_pushes_bounded)
  have node: "push_node ?t a = push_node s a"
    by (rule push_node_pushes)
  have "stack (pushes s (as @ [a])) = deque_append (stack ?t) (maxlen s) (push_node s a)"
    by (simp add: pushes_snoc push_stack node)
  also have "\<dots> = drop (Suc (length (stack ?t)) - maxlen s) (stack ?t @ [push_node s a])"
    using len by (rule deque_append_drop)
  also have "\<dots> = drop (length (stack s) + length (as @ [a]) - maxlen s) (?all @ [push_node s a])"
  proof (cases "length (stack s) + length as < maxlen s")
    case True
    then show ?thesis unfolding st by simp
  next
    case False
    then have k: "?k \<le> length ?all" and l: "length (drop ?k ?all) = maxlen s"
      using snoc.prems by simp_all
    have "drop (Suc (length (stack ?t)) - maxlen s) (stack ?t @ [push_node s a])
        = drop 1 (drop ?k (?all @ [push_node s a]))"
      unfolding st l using k by simp
    also have "\<dots> = drop (Suc ?k) (?all @ [push_node s a])"
      by (simp only: drop_drop) simp
    also have "Suc ?k = length (stack s) + length (as @ [a]) - maxlen s"
      using False by simp
    finally show ?thesis .
  qed
  also have "?all @ [push_node s a] = stack s @ map (push_node s) (as @ [a])"
    by simp
  finally show ?case .
qed

lemmas example_defs = new_store_def ConversationStack_init_def deque_new_def arg_A_def arg_B_def arg_C_def

lemma init_Inr:
  "ConversationStack_init N = Inr s0 \<Longrightarrow> 0 \<le> N \<and> stack s0 = [] \<and> maxlen s0 = nat N \<and> current_branch s0 = 0 \<and> branches s0 = Map.empty"
  by (auto simp: ConversationStack_init_def deque_new_def split: if_splits)

lemma recent_positive:
  "1 \<le> n \<Longrightarrow> get_recent_conversation s n = drop (length (stack s) - nat n) (stack s)"
  by (auto simp: get_recent_conversation_def py_slice_from_def Let_def max_def nat_diff_distrib
      intro!: arg_cong [where f = "\<lambda>k. drop k (stack s)"])

text \<open>
  C4. A store built with capacity \<open>N \<ge> 1\<close> that has received more than \<open>N\<close> pushes
  holds exactly the nodes of the last \<open>N\<close> pushes, in the order of the pushes, whatever
  their branches; \<open>get_stack\<close> and \<open>get_recent_conversation N\<close> both show them; and every
  push past capacity drops the single oldest node and appends the new one.
\<close>

theorem capacity_invariant:
  assumes "ConversationStack_init N = Inr s0" and "1 \<le> N" and "nat N < length as"
  shows "get_stack (pushes s0 as) = drop (length as - nat N) (map (push_node s0) as)
       \<and> length (get_stack (pushes s0 as)) = nat N
       \<and> get_recent_conversation (pushes s0 as) N = get_stack (pushes s0 as)
       \<and> (\<forall>j. nat N \<le> j \<and> j < length as \<longrightarrow>
            get_stack (pushes s0 (take (Suc j) as)) =
              tl (get_stack (pushes s0 (take j as))) @ [push_node s0 (as ! j)])"
proof -
  from assms(1) have s0: "stack s0 = []" "maxlen s0 = nat N"
    by (simp_all add: init_Inr)
  have st: "stack (pushes s0 bs) = drop (length bs - nat N) (map (push_node s0) bs)" for bs
    using stack_pushes [of s0 bs] by (simp add: s0)
  have len: "length (stack (pushes s0 as)) = nat N"
    using assms(3) by (simp add: st)
  have step: "get_stack (pushes s0 (take (Suc j) as)) =
              tl (get_stack (pushes s0 (take j as))) @ [push_node s0 (as ! j)]"
    if j: "nat N \<le> j" "j < length as" for j
  proof -
    let ?t = "pushes s0 (take j as)"
    have full: "length (stack ?t) = maxlen ?t"
      using j by (simp add: st s0)
    have pos: "0 < maxlen ?t"
      using assms(2) by (simp add: s0)
    have "pushes s0 (take (Suc j) as) = snd (push ?t (as ! j))"
      using j(2) by (simp add: take_Suc_conv_app_nth pushes_snoc)
    then show ?thesis
      using deque_append_full [OF full pos] by (simp add: get_stack_def push_stack push_node_pushes)
  qed
  have "get_recent_conversation (pushes s0 as) N = get_stack (pushes s0 as)"
    using assms(2) len by (simp add: recent_positive get_stack_def)
  with st [of as] len step show ?thesis
    by (simp add: get_stack_def)
qed

theorem capacity_invariant_witness:
  "ConversationStack_init 2 = Inr (new_store 2) \<and> (1::int) \<le> 2 \<and> nat 2 < length [arg_A, arg_B, arg_C]
   \<and> get_stack (pushes (new_store 2) [arg_A, arg_B, arg_C]) =
       [push_node (new_store 2) arg_B, push_node (new_store 2) arg_C]
   \<and> get_recent_conversation (pushes (new_store 2) [arg_A, arg_B, arg_C]) 2 =
       [push_node (new_store 2) arg_B, push_node (new_store 2) arg_C]
   \<and> get_stack (pushes (new_store 2) [arg_A, arg_B, arg_C]) =
       tl (get_stack (pushes (new_store 2) [arg_A, arg_B])) @ [push_node (new_store 2) arg_C]"
proof -
  have h1: "ConversationStack_init 2 = Inr (new_store 2)"
    by (simp add: new_store_def ConversationStack_init_def deque_new_def)
  have h2: "(1::int) \<le> 2" by simp
  have h3: "nat 2 < length [arg_A, arg_B, arg_C]" by simp
  note w = capacity_invariant [OF h1 h2 h3]
  from w have a: "get_stack (pushes (new_store 2) [arg_A, arg_B, arg_C]) =
       [push_node (new_store 2) arg_B, push_node (new_store 2) arg_C]"
    by simp
  from w have b: "get_recent_conversation (pushes (new_store 2) [arg_A, arg_B, arg_C]) 2 =
       get_stack (pushes (new_store 2) [arg_A, arg_B, arg_C])"
    by simp
  from w have "nat 2 \<le> 2 \<and> 2 < length [arg_A, arg_B, arg_C] \<longrightarrow>
       get_stack (pushes (new_store 2) (take (Suc 2) [arg_A, arg_B, arg_C])) =
         tl (get_stack (pushes (new_store 2) (take 2 [arg_A, arg_B, arg_C]))) @
           [push_node (new_store 2) ([arg_A, arg_B, arg_C] ! 2)]"
    by blast
  then have c: "get_stack (pushes (new_store 2) [arg_A, arg_B, arg_C]) =
       tl (get_stack (pushes (new_store 2) [arg_A, arg_B])) @ [push_node (new_store 2) arg_C]"
    by (simp add: numeral_3_eq_3 numeral_2_eq_2)
  from h1 h2 h3 a b c show ?thesis by simp
qed

text \<open>
  C1, as the code has it. \<open>push\<close> returns the position of the new node. As long as the
  store stays within its capacity (the pushes so far have evicted nothing), \<open>get_item\<close>
  at the returned index yields exactly the node of that push. The indices are positions
  in the deque, so nothing is promised once an eviction has shifted the nodes.
\<close>

theorem get_item_stable_until_eviction:
  assumes "length (stack s) + Suc (length later) \<le> maxlen s"
  shows "fst (push s a) = int (length (stack s))
       \<and> get_item (pushes (snd (push s a)) later) (fst (push s a)) = Some (push_node s a)"
proof -
  have id: "fst (push s a) = int (length (stack s))"
    using assms by (simp add: push_fst push_stack length_deque_append)
  have "stack (pushes s (a # later)) = stack s @ map (push_node s) (a # later)"
    using assms stack_pushes [of s "a # later"] by simp
  then have "stack (pushes (snd (push s a)) later) = stack s @ push_node s a # map (push_node s) later"
    by simp
  then show ?thesis
    by (simp add: id get_item_def)
qed

theorem get_item_stable_until_eviction_witness:
  "length (stack (new_store 2)) + Suc (length [arg_B]) \<le> maxlen (new_store 2)
   \<and> fst (push (new_store 2) arg_A) = 0
   \<and> get_item (pushes (snd (push (new_store 2) arg_A)) [arg_B]) 0 = Some (push_node (new_store 2) arg_A)"
proof -
  have h: "length (stack (new_store 2)) + Suc (length [arg_B]) \<le> maxlen (new_store 2)"
    by (simp add: new_store_def ConversationStack_init_def deque_new_def)
  have "stack (new_store 2) = []"
    by (simp add: new_store_def ConversationStack_init_def deque_new_def)
  then have id: "fst (push (new_store 2) arg_A) = 0"
    using get_item_stable_until_eviction [OF h, of arg_A] by simp
  from get_item_stable_until_eviction [OF h, of arg_A] have
    "get_item (pushes (snd (push (new_store 2) arg_A)) [arg_B]) (fst (push (new_store 2) arg_A))
       = Some (push_node (new_store 2) arg_A)" ..
  with id h show ?thesis by simp
qed

text \<open>
  C1, against the claim as stated. With capacity 1 the index 0 returned for the first push resolves, after a second push,
  to the node of the second push.
\<close>

theorem get_item_aliases_after_eviction:
  "fst (push (new_store 1) arg_A) = 0
   \<and> get_item (pushes (snd (push (new_store 1) arg_A)) [arg_B]) 0 = Some (push_node (new_store 1) arg_B)
   \<and> push_node (new_store 1) arg_B \<noteq> push_node (new_store 1) arg_A"
  by (simp add: example_defs push_def push_node_def ConversationNode_init_def deque_append_def get_item_def)

text \<open>
  C3, as the code has it. The index returned by \<open>push\<close> is the length of the deque
  minus one: while the store stays within its capacity a run of pushes returns the
  consecutive, strictly increasing indices \<open>len, len + 1, \<dots>\<close>; once the store is full
  every push returns the same index \<open>len - 1\<close>.
\<close>

theorem push_ids_positional:
  "(length (stack s) + length as \<le> maxlen s \<longrightarrow>
      push_ids s as = map int [length (stack s) ..< length (stack s) + length as])
   \<and> (maxlen s \<le> length (stack s) \<longrightarrow>
      push_ids s as = replicate (length as) (int (length (stack s)) - 1))"
proof (induction as arbitrary: s)
  case Nil
  show ?case by simp
next
  case (Cons a as)
  let ?s1 = "snd (push s a)"
  show ?case
  proof (intro conjI impI)
    assume h: "length (stack s) + length (a # as) \<le> maxlen s"
    then have l1: "length (stack ?s1) = Suc (length (stack s))"
      by (simp add: push_stack length_deque_append)
    have "length (stack ?s1) + length as \<le> maxlen ?s1"
      using h l1 by simp
    with Cons.IH [of ?s1]
    have "push_ids ?s1 as = map int [length (stack ?s1) ..< length (stack ?s1) + length as]"
      by blast
    then have "push_ids ?s1 as = map int [Suc (length (stack s)) ..< length (stack s) + length (a # as)]"
      unfolding l1 by simp
    moreover have "fst (push s a) = int (length (stack s))"
      by (simp add: push_fst l1)
    moreover have "[length (stack s) ..< length (stack s) + length (a # as)]
        = length (stack s) # [Suc (length (stack s)) ..< length (stack s) + length (a # as)]"
      by (rule upt_conv_Cons) simp
    ultimately show "push_ids s (a # as) = map int [length (stack s) ..< length (stack s) + length (a # as)]"
      by (simp del: upt_Suc)
  next
    assume h: "maxlen s \<le> length (stack s)"
    then have l1: "length (stack ?s1) = length (stack s)"
      by (simp add: push_stack length_deque_append)
    with h Cons.IH [of ?s1]
    have "push_ids ?s1 as = replicate (length as) (int (length (stack s)) - 1)"
      by simp
    then show "push_ids s (a # as) = replicate (length (a # as)) (int (length (stack s)) - 1)"
      by (simp add: push_fst l1)
  qed
qed

theorem push_ids_positional_witness:
  "length (stack (new_store 3)) + length [arg_A, arg_B] \<le> maxlen (new_store 3)
   \<and> push_ids (new_store 3) [arg_A, arg_B] = [0, 1]
   \<and> maxlen (snd (push (new_store 1) arg_A)) \<le> length (stack (snd (push (new_store 1) arg_A)))
   \<and> push_ids (snd (push (new_store 1) arg_A)) [arg_B, arg_C] = [0, 0]"
proof -
  have h1: "length (stack (new_store 3)) + length [arg_A, arg_B] \<le> maxlen (new_store 3)"
    by (simp add: new_store_def ConversationStack_init_def deque_new_def)
  have e: "stack (new_store 3) = []"
    by (simp add: new_store_def ConversationStack_init_def deque_new_def)
  have l: "length (stack (snd (push (new_store 1) arg_A))) = 1"
    by (simp add: new_store_def ConversationStack_init_def deque_new_def push_stack length_deque_append)
  have h2: "maxlen (snd (push (new_store 1) arg_A)) \<le> length (stack (snd (push (new_store 1) arg_A)))"
    by (simp add: new_store_def ConversationStack_init_def deque_new_def push_stack length_deque_append)
  from push_ids_positional [of "new_store 3" "[arg_A, arg_B]", THEN conjunct1, rule_format, OF h1]
       push_ids_positional [of "snd (push (new_store 1) arg_A)" "[arg_B, arg_C]", THEN conjunct2, rule_format, OF h2]
       h1 h2
  show ?thesis by (simp add: e l upt_conv_Cons)
qed

text \<open>
  C3, against the claim as stated. Two consecutive pushes on a store of capacity 1 both
  return 0.
\<close>

theorem push_id_reused:
  "fst (push (new_store 1) arg_A) = 0 \<and> fst (push (snd (push (new_store 1) arg_A)) arg_B) = 0"
  by (simp add: example_defs push_def push_node_def ConversationNode_init_def deque_append_def)

text \<open>
  C8. \<^verbatim>\<open>list(self.stack)[-0:]\<close> is the whole list: with two resident nodes,
  \<open>get_recent_conversation\<close> with limit 0 returns both, where \<open>min 0 2 = 0\<close> nodes
  are asked for.
\<close>

theorem recent_zero_returns_all:
  "get_recent_conversation (pushes (new_store 10) [arg_A, arg_B]) 0 =
     [push_node (new_store 10) arg_A, push_node (new_store 10) arg_B]
   \<and> min 0 (length (get_stack (pushes (new_store 10) [arg_A, arg_B]))) = 0"
  by (simp add: example_defs get_recent_conversation_def py_slice_from_def get_stack_def
      push_stack push_node_push deque_append_def)

lemma new_store_0: "stack (new_store 0) = []" "maxlen (new_store 0) = 0"
  by (simp_all add: new_store_def ConversationStack_init_def deque_new_def)

lemma stack_pushes_capacity_0: "stack (pushes (new_store 0) as) = []"
  using stack_pushes_bounded [of "new_store 0" as] by (simp add: new_store_0)

text \<open>
  C9, as the code has it. \<open>__init__\<close> checks nothing itself. For every negative
  \<open>max_size\<close> the constructor of the deque raises, so no store is produced: the error is
  \<^verbatim>\<open>ValueError\<close> exactly for \<open>- 2\<^sup>6\<^sup>3 \<le> max_size < 0\<close> and \<^verbatim>\<open>OverflowError\<close> exactly
  outside the range of \<^verbatim>\<open>Py_ssize_t\<close>. For \<open>max_size = 0\<close> nothing is raised: the store
  is produced, it holds no node whatever is pushed, and every push returns \<open>- 1\<close>.
\<close>

theorem capacity_check:
  "(max_size < 0 \<longrightarrow> isl (ConversationStack_init max_size))
   \<and> (ConversationStack_init max_size = Inl ValueError \<longleftrightarrow> - (2 ^ 63) \<le> max_size \<and> max_size < 0)
   \<and> (ConversationStack_init max_size = Inl OverflowError \<longleftrightarrow>
        max_size < - (2 ^ 63) \<or> 2 ^ 63 \<le> max_size)
   \<and> \<not> isl (ConversationStack_init 0)
   \<and> get_stack (pushes (new_store 0) as) = []
   \<and> fst (push (pushes (new_store 0) as) a) = - 1"
proof -
  have "fst (push (pushes (new_store 0) as) a) = - 1"
    by (simp add: push_fst push_stack length_deque_append stack_pushes_capacity_0 new_store_0)
  then show ?thesis
    by (auto simp: ConversationStack_init_def deque_new_def get_stack_def stack_pushes_capacity_0)
qed

theorem capacity_check_witness:
  "(- 1 :: int) < 0 \<and> ConversationStack_init (- 1) = Inl ValueError
   \<and> (- (2 ^ 63) - 1 :: int) < 0 \<and> ConversationStack_init (- (2 ^ 63) - 1) = Inl OverflowError
   \<and> \<not> isl (ConversationStack_init 0)
   \<and> get_stack (pushes (new_store 0) [arg_A, arg_B]) = []
   \<and> fst (push (pushes (new_store 0) [arg_A]) arg_B) = - 1"
  using capacity_check [of "- 1" "[arg_A, arg_B]" arg_B]
    capacity_check [of "- (2 ^ 63) - 1" "[arg_A]" arg_B]
  by simp

text \<open>
  C9, against the claim as stated. Capacity 0 is not positive, and the constructor
  returns a store for it.
\<close>

theorem zero_capacity_accepted:
  "(0::int) \<le> 0 \<and> \<not> isl (ConversationStack_init 0)"
  by (simp add: ConversationStack_init_def deque_new_def)

text \<open>
  C5. On a fresh store \<open>create_branch\<close> with \<open>from_index = - 1\<close> passes the test
  \<^verbatim>\<open>from_index >= len(self.stack)\<close>, increments \<^verbatim>\<open>current_branch\<close> and raises
  \<^verbatim>\<open>IndexError\<close> at \<^verbatim>\<open>self.stack[from_index]\<close>; \<open>get_item\<close>, which tests
  \<^verbatim>\<open>0 <= index\<close> as well, returns \<^verbatim>\<open>None\<close> for the same index.
\<close>

theorem create_branch_negative_raises:
  "fst (create_branch (new_store 10) (- 1) None None ''t'') = Inl IndexError
   \<and> current_branch (snd (create_branch (new_store 10) (- 1) None None ''t'')) = 1
   \<and> get_item (new_store 10) (- 1) = None"
  by (simp add: example_defs create_branch_def deque_index_def get_item_def)

text \<open>
  For an index that is not negative, \<open>create_branch\<close> returns \<^verbatim>\<open>None\<close> exactly when
  \<open>get_item\<close> finds no node there, and raises nothing.
\<close>

lemma create_branch_nonneg:
  assumes "0 \<le> i"
  shows "(fst (create_branch s i sp up now) = Inr None \<longleftrightarrow> get_item s i = None)
       \<and> fst (create_branch s i sp up now) \<noteq> Inl e"
  using assms by (auto simp: create_branch_def deque_index_def get_item_def Let_def)







subsection \<open>Branch conversations\<close>

lemma py_slice_last:
  "1 \<le> limit \<Longrightarrow> py_slice_from xs (- limit) = drop (length xs - nat limit) xs"
  by (auto simp: py_slice_from_def Let_def max_def nat_diff_distrib
      intro!: arg_cong [where f = "\<lambda>k. drop k xs"])

lemma branch_positions_bound: "i \<in> set (branch_positions ns b) \<Longrightarrow> i < length ns"
  by (simp add: branch_positions_def)

lemma branch_positions_snoc:
  "branch_positions (ns @ [n]) b =
     branch_positions ns b @ (if branch_id n = b then [length ns] else [])"
proof -
  have "filter (\<lambda>i. branch_id ((ns @ [n]) ! i) = b) [0..<length ns]
      = filter (\<lambda>i. branch_id (ns ! i) = b) [0..<length ns]"
    by (rule filter_cong) (simp_all add: nth_append)
  then show ?thesis
    by (simp add: branch_positions_def)
qed

lemma map_nth_positions:
  "map (nth ns) (branch_positions ns b) = filter (\<lambda>n. branch_id n = b) ns"
proof (induction ns rule: rev_induct)
  case Nil
  show ?case by (simp add: branch_positions_def)
next
  case (snoc n ns)
  have "map (nth (ns @ [n])) (branch_positions ns b) = map (nth ns) (branch_positions ns b)"
    by (rule map_cong) (simp_all add: nth_append branch_positions_bound)
  with snoc show ?case
    by (simp add: branch_positions_snoc)
qed

lemma resolve_positions:
  "\<forall>i \<in> set is. i < length st \<Longrightarrow> resolve_indices st (map int is) = Inr (map (nth st) is)"
  by (induction "is") (simp_all add: deque_index_def)

lemma track_push:
  assumes "branches_track s" and "length (stack s) < maxlen s"
  shows "branches_track (snd (push s a))"
proof -
  let ?n = "push_node s a"
  have st: "stack (snd (push s a)) = stack s @ [?n]"
    using assms(2) by (simp add: push_stack deque_append_below)
  have ids: "(case branches s (branch_id ?n) of None \<Rightarrow> [] | Some l \<Rightarrow> l)
      = map int (branch_positions (stack s) (branch_id ?n))"
    using assms(1) by (simp add: branches_track_def)
  have br: "branches (snd (push s a)) =
      (branches s)(branch_id ?n \<mapsto> map int (branch_positions (stack s) (branch_id ?n)) @ [int (length (stack s))])"
    using assms(2) ids by (simp add: push_def Let_def deque_append_below)
  show ?thesis
    unfolding branches_track_def st br branch_positions_snoc
    using assms(1) by (simp add: branches_track_def)
qed

lemma track_pushes:
  "branches_track s \<Longrightarrow> length (stack s) + length as \<le> maxlen s \<Longrightarrow> branches_track (pushes s as)"
proof (induction as arbitrary: s)
  case Nil
  then show ?case by simp
next
  case (Cons a as)
  from Cons.prems have "branches_track (snd (push s a))"
    by (intro track_push) simp_all
  moreover from Cons.prems have "length (stack (snd (push s a))) + length as \<le> maxlen (snd (push s a))"
    by (simp add: push_stack length_deque_append)
  ultimately show ?case
    using Cons.IH by simp
qed

lemma track_init: "ConversationStack_init N = Inr s0 \<Longrightarrow> branches_track s0"
  by (simp add: init_Inr branches_track_def branch_positions_def)

text \<open>
  What the docstring of \<open>get_branch_conversation\<close> promises does hold for a store that
  was built from a fresh one by pushes alone and has not exceeded its capacity: with a
  positive limit the result is the nodes of the last \<open>limit\<close> pushes to that branch (all
  of them if there are fewer), each the node of its own push, in push order.
\<close>

lemma branch_conversation_within_capacity:
  assumes "ConversationStack_init N = Inr s0" and "length as \<le> nat N" and "1 \<le> limit"
  shows "get_branch_conversation (pushes s0 as) b limit =
     Inr (let own = filter (\<lambda>n. branch_id n = b) (map (push_node s0) as)
          in drop (length own - nat limit) own)"
proof -
  let ?s = "pushes s0 as"
  let ?pos = "branch_positions (stack ?s) b"
  let ?own = "filter (\<lambda>n. branch_id n = b) (map (push_node s0) as)"
  from assms(1) have s0: "stack s0 = []" "maxlen s0 = nat N"
    by (simp_all add: init_Inr)
  have st: "stack ?s = map (push_node s0) as"
    using stack_pushes [of s0 as] assms(2) by (simp add: s0)
  have tr: "branches_track ?s"
    using assms(1,2) by (intro track_pushes track_init) (simp_all add: s0)
  have own: "map (nth (stack ?s)) ?pos = ?own"
    by (simp add: map_nth_positions st)
  then have len: "length ?own = length ?pos"
    by (metis length_map)
  show ?thesis
  proof (cases "?pos = []")
    case True
    with tr have "branches ?s b = None"
      by (simp add: branches_track_def)
    moreover from True own have "?own = []" by simp
    ultimately show ?thesis
      by (simp add: get_branch_conversation_def)
  next
    case False
    with tr have "branches ?s b = Some (map int ?pos)"
      by (simp add: branches_track_def)
    then have "get_branch_conversation ?s b limit
        = resolve_indices (stack ?s) (map int (drop (length ?pos - nat limit) ?pos))"
      using assms(3) by (simp add: get_branch_conversation_def py_slice_last drop_map)
    also have "\<dots> = Inr (map (nth (stack ?s)) (drop (length ?pos - nat limit) ?pos))"
      by (rule resolve_positions) (auto dest: in_set_dropD branch_positions_bound)
    also have "map (nth (stack ?s)) (drop (length ?pos - nat limit) ?pos)
        = drop (length ?own - nat limit) ?own"
      unfolding len by (simp only: drop_map [symmetric] own)
    finally show ?thesis by (simp add: Let_def)
  qed
qed

lemma branch_conversation_within_capacity_example:
  "ConversationStack_init 3 = Inr (new_store 3) \<and> length [arg_A, arg_B, arg_C] \<le> nat 3 \<and> (1::int) \<le> 1
   \<and> get_branch_conversation (pushes (new_store 3) [arg_A, arg_B, arg_C]) 0 1 =
       Inr [push_node (new_store 3) arg_C]
   \<and> get_branch_conversation (pushes (new_store 3) [arg_A, arg_B, arg_C]) 0 10 =
       Inr [push_node (new_store 3) arg_A, push_node (new_store 3) arg_C]"
proof -
  have h1: "ConversationStack_init 3 = Inr (new_store 3)"
    by (simp add: new_store_def ConversationStack_init_def deque_new_def)
  have h2: "length [arg_A, arg_B, arg_C] \<le> nat 3" by simp
  have b: "branch_id (push_node (new_store 3) arg_A) = 0" "branch_id (push_node (new_store 3) arg_B) = 1"
    "branch_id (push_node (new_store 3) arg_C) = 0"
    by (simp_all add: example_defs push_node_def ConversationNode_init_def)
  from branch_conversation_within_capacity [OF h1 h2, of 1 0]
       branch_conversation_within_capacity [OF h1 h2, of 10 0] h1
  show ?thesis by (simp add: b)
qed

text \<open>
  C2. Capacity 2 and three pushes, to the branches 0, 1 and 0, which return the indices
  0, 1 and 1. The third push evicts the first node, so the deque holds the node of
  branch 1 followed by the second node of branch 0, while branch 0 still records the
  indices 0 and 1. \<open>get_branch_conversation\<close> for branch 0 resolves them by position
  and returns the node of branch 1 followed by the second node of branch 0: the evicted
  turn is not dropped (the test \<^verbatim>\<open>i < len(self.stack)\<close> lets index 0 through) and
  index 0 resolves to a turn of another branch.
\<close>

theorem branch_conversation_aliases_after_eviction:
  "push_ids (new_store 2) [arg_A, arg_B, arg_C] = [0, 1, 1]
   \<and> get_stack (pushes (new_store 2) [arg_A, arg_B, arg_C]) =
       [push_node (new_store 2) arg_B, push_node (new_store 2) arg_C]
   \<and> branches (pushes (new_store 2) [arg_A, arg_B, arg_C]) 0 = Some [0, 1]
   \<and> get_branch_conversation (pushes (new_store 2) [arg_A, arg_B, arg_C]) 0 10 =
       Inr [push_node (new_store 2) arg_B, push_node (new_store 2) arg_C]
   \<and> branch_id (push_node (new_store 2) arg_B) = 1
   \<and> branch_id (push_node (new_store 2) arg_C) = 0"
  by (simp add: example_defs get_branch_conversation_def get_stack_def push_def push_node_def
      ConversationNode_init_def deque_append_def py_slice_from_def deque_index_def Let_def)

lemma in_range_push:
  assumes "indices_in_range s" and "0 < maxlen s"
  shows "indices_in_range (snd (push s a))"
proof -
  let ?st = "deque_append (stack s) (maxlen s) (push_node s a)"
  have grow: "length (stack s) \<le> length ?st" and pos: "0 < length ?st"
    using assms(2) by (auto simp: length_deque_append)
  have old: "0 \<le> i \<and> i < int (length ?st)" if "branches s b = Some ids" "i \<in> set ids" for b ids i
  proof -
    from assms(1) that have "0 \<le> i \<and> i < int (length (stack s))"
      unfolding indices_in_range_def by blast
    with grow show ?thesis by linarith
  qed
  show ?thesis
    unfolding indices_in_range_def
  proof (intro allI impI ballI)
    fix b ids i
    assume br: "branches (snd (push s a)) b = Some ids" and i: "i \<in> set ids"
    show "0 \<le> i \<and> i < int (length (stack (snd (push s a))))"
    proof (cases "b = branch_id (push_node s a)")
      case True
      with br have "ids = (case branches s b of None \<Rightarrow> [] | Some l \<Rightarrow> l) @ [int (length ?st) - 1]"
        by (simp add: push_def Let_def)
      with i old [of b] pos show ?thesis
        by (auto simp: push_stack split: option.splits)
    next
      case False
      with br have "branches s b = Some ids"
        by (simp add: push_def Let_def)
      with i old show ?thesis
        by (simp add: push_stack)
    qed
  qed
qed

lemma in_range_pushes:
  "indices_in_range s \<Longrightarrow> 0 < maxlen s \<Longrightarrow> indices_in_range (pushes s as)"
  by (induction as arbitrary: s) (simp_all add: in_range_push)

lemma resolve_in_range:
  "\<forall>i \<in> set is. 0 \<le> i \<and> i < int (length st) \<Longrightarrow>
   resolve_indices st is = Inr (map (\<lambda>i. st ! nat i) is)"
  by (induction "is") (simp_all add: deque_index_def)

text \<open>
  In general the result is the list of the nodes now at the recorded positions: in a
  store of positive capacity every recorded index stays in range, so the test
  \<^verbatim>\<open>i < len(self.stack)\<close> drops nothing.
\<close>

lemma branch_conversation_positional:
  assumes "indices_in_range s" and "branches s b = Some ids"
  shows "get_branch_conversation s b limit =
     Inr (map (\<lambda>i. stack s ! nat i) (py_slice_from ids (- limit)))"
proof -
  have "set (py_slice_from ids (- limit)) \<subseteq> set ids"
    by (simp add: py_slice_from_def Let_def set_drop_subset)
  with assms have "\<forall>i \<in> set (py_slice_from ids (- limit)). 0 \<le> i \<and> i < int (length (stack s))"
    by (auto simp: indices_in_range_def)
  then show ?thesis
    using assms(2) by (simp add: get_branch_conversation_def resolve_in_range)
qed

end
